theory Spec2Isabelle
  imports Complex_Main "HOL-Library.AList" "HOL-Library.Sublist"
begin

section \<open>Data model (src/types/index.ts)\<close>

text \<open>
  A TypeScript \<open>number\<close> that carries a price or a quantity is modelled as an exact
  rational; the sequence counter and the order count of a level are natural numbers and
  clock readings are integers. Rounding, NaN and infinities of IEEE doubles are outside
  this model.
\<close>

datatype side = Buy | Sell

datatype order_type = Market | Limit

record order =
  o_id :: string
  o_price :: rat
  o_quantity :: rat
  o_side :: side
  o_type :: order_type
  o_timestamp :: int

record trade =
  t_id :: string
  t_price :: rat
  t_quantity :: rat
  t_side :: side
  t_timestamp :: int
  t_buyer :: "string option"
  t_seller :: "string option"

record order_book_level =
  l_price :: rat
  l_quantity :: rat
  l_total :: rat
  l_count :: nat

record order_book =
  bids :: "order_book_level list"
  asks :: "order_book_level list"
  midPrice :: rat
  spread :: rat

text \<open>The three private fields of class \<open>OrderMatcher\<close>.\<close>

record engine =
  orders :: "order list"
  trades :: "trade list"
  sequenceId :: nat


section \<open>Library behaviour the engine relies on\<close>

text \<open>
  \<open>Array.prototype.sort\<close> with a comparator. The language standard requires the sort
  to be stable, so for a consistent comparator its result is the one produced by
  insertion sort: an element goes in front of the first element it does not compare
  greater than.
\<close>

fun insort_cmp :: "('a \<Rightarrow> 'a \<Rightarrow> rat) \<Rightarrow> 'a \<Rightarrow> 'a list \<Rightarrow> 'a list" where
  "insort_cmp cmp x [] = [x]"
| "insort_cmp cmp x (y # ys) =
     (if cmp x y \<le> 0 then x # y # ys else y # insort_cmp cmp x ys)"

definition sort_cmp :: "('a \<Rightarrow> 'a \<Rightarrow> rat) \<Rightarrow> 'a list \<Rightarrow> 'a list" where
  "sort_cmp cmp xs = foldr (insort_cmp cmp) xs []"

text \<open>
  The text a template literal produces for a non-negative integer counter: its decimal
  digits, most significant first.
\<close>

definition digit :: "nat \<Rightarrow> char" where
  "digit d = ''0123456789'' ! d"

fun decimal :: "nat \<Rightarrow> string" where
  "decimal n = (if n < 10 then [digit n] else decimal (n div 10) @ [digit (n mod 10)])"

declare decimal.simps [simp del]

definition tradeId :: "nat \<Rightarrow> string" where
  "tradeId n = ''trade_'' @ decimal n"

section \<open>Matching (src/lib/orderMatcher.ts)\<close>

text \<open>
  The resting orders are JavaScript objects shared between \<open>this.orders\<close> and the
  sorted working array \<open>opposingOrders\<close>: a quantity written through one is seen
  through the other, and an object filtered out of \<open>this.orders\<close> is still walked if it
  is in the working array. The model therefore keeps an explicit store during one call:
  a reference is the position the object had in \<open>this.orders\<close> when the call started,
  \<open>heap\<close> maps a reference to the object's current fields, and \<open>live\<close> is
  \<open>this.orders\<close> as a list of references.

  The wall clock is an input: \<open>now n\<close> is what \<open>Date.now()\<close> returns when the trade
  with sequence number \<open>n\<close> is built.
\<close>

type_synonym ref = nat

type_synonym heap = "ref \<Rightarrow> order"

definition opposite :: "side \<Rightarrow> side" where
  "opposite s = (if s = Buy then Sell else Buy)"

text \<open>The comparator both matching functions pass to \<open>sort\<close>.\<close>

definition priceCmp :: "order \<Rightarrow> heap \<Rightarrow> ref \<Rightarrow> ref \<Rightarrow> rat" where
  "priceCmp order heap a b =
     (if o_side order = Buy then o_price (heap a) - o_price (heap b)
      else o_price (heap b) - o_price (heap a))"

text \<open>
  One iteration of the \<open>for\<close> loop of \<open>matchMarketOrder\<close> (lines 46 to 69) and of
  \<open>matchLimitOrder\<close> (lines 101 to 124), after the \<open>break\<close> test; the two bodies are
  the same text. \<open>r\<close> is the resting order walked. The result is the trade pushed, the
  remaining quantity, and the new counter, store and \<open>this.orders\<close>.
\<close>

definition matchStep ::
  "(nat \<Rightarrow> int) \<Rightarrow> order \<Rightarrow> ref \<Rightarrow> rat \<Rightarrow> nat \<Rightarrow> heap \<Rightarrow> ref list
    \<Rightarrow> trade \<times> rat \<times> nat \<times> heap \<times> ref list" where
  "matchStep now order r remainingQuantity seq heap live =
     (let opposingOrder = heap r;
          tradeQuantity = min remainingQuantity (o_quantity opposingOrder);
          tradePrice = o_price opposingOrder;
          trade = \<lparr>t_id = tradeId seq,
                   t_price = tradePrice,
                   t_quantity = tradeQuantity,
                   t_side = o_side order,
                   t_timestamp = now seq,
                   t_buyer = Some (if o_side order = Buy then o_id order
                                   else o_id opposingOrder),
                   t_seller = Some (if o_side order = Sell then o_id order
                                    else o_id opposingOrder)\<rparr>;
          heap' = heap(r := opposingOrder
                    \<lparr>o_quantity := o_quantity opposingOrder - tradeQuantity\<rparr>);
          live' = (if o_quantity (heap' r) \<le> 0
                   then filter (\<lambda>a. o_id (heap' a) \<noteq> o_id (heap' r)) live
                   else live)
      in (trade, remainingQuantity - tradeQuantity, Suc seq, heap', live'))"

text \<open>
  The loop over \<open>opposingOrders\<close>: it stops at the first iteration that finds
  \<open>remainingQuantity <= 0\<close>, or at the end of the array. The trades are listed in the
  order they are pushed.
\<close>

fun matchLoop ::
  "(nat \<Rightarrow> int) \<Rightarrow> order \<Rightarrow> ref list \<Rightarrow> rat \<Rightarrow> nat \<Rightarrow> heap \<Rightarrow> ref list
    \<Rightarrow> trade list \<times> rat \<times> nat \<times> heap \<times> ref list" where
  "matchLoop now order [] remainingQuantity seq heap live =
     ([], remainingQuantity, seq, heap, live)"
| "matchLoop now order (r # rest) remainingQuantity seq heap live =
     (if remainingQuantity \<le> 0 then ([], remainingQuantity, seq, heap, live)
      else
        case matchStep now order r remainingQuantity seq heap live of
          (trade, remainingQuantity', seq', heap', live') \<Rightarrow>
            (case matchLoop now order rest remainingQuantity' seq' heap' live' of
               (ts, res) \<Rightarrow> (trade # ts, res)))"

definition marketOpposing :: "order \<Rightarrow> engine \<Rightarrow> ref list" where
  "marketOpposing order st =
     sort_cmp (priceCmp order (nth (orders st)))
       (filter (\<lambda>a. o_side (orders st ! a) = opposite (o_side order))
         [0..<length (orders st)])"

definition limitOpposing :: "order \<Rightarrow> engine \<Rightarrow> ref list" where
  "limitOpposing order st =
     sort_cmp (priceCmp order (nth (orders st)))
       (filter (\<lambda>a. if o_side (orders st ! a) \<noteq> opposite (o_side order) then False
                     else if o_side order = Buy
                       then o_price (orders st ! a) \<le> o_price order
                       else o_price (orders st ! a) \<ge> o_price order)
         [0..<length (orders st)])"

text \<open>
  Both matching functions return the remainder together with the fields of \<open>this\<close> they
  have written: the counter, the store and \<open>this.orders\<close>.
\<close>

definition matchMarketOrder ::
  "(nat \<Rightarrow> int) \<Rightarrow> order \<Rightarrow> engine
    \<Rightarrow> trade list \<times> order option \<times> nat \<times> heap \<times> ref list" where
  "matchMarketOrder now order st =
     (case matchLoop now order (marketOpposing order st) (o_quantity order)
             (sequenceId st) (nth (orders st)) [0..<length (orders st)] of
        (ts, remainingQuantity, res) \<Rightarrow>
          (ts, (if remainingQuantity > 0 then None else None), res))"

definition matchLimitOrder ::
  "(nat \<Rightarrow> int) \<Rightarrow> order \<Rightarrow> engine
    \<Rightarrow> trade list \<times> order option \<times> nat \<times> heap \<times> ref list" where
  "matchLimitOrder now order st =
     (case matchLoop now order (limitOpposing order st) (o_quantity order)
             (sequenceId st) (nth (orders st)) [0..<length (orders st)] of
        (ts, remainingQuantity, res) \<Rightarrow>
          (ts, (if remainingQuantity > 0
                then Some (order\<lparr>o_quantity := remainingQuantity\<rparr>) else None), res))"

definition matchOrder ::
  "(nat \<Rightarrow> int) \<Rightarrow> order \<Rightarrow> engine
    \<Rightarrow> trade list \<times> order option \<times> nat \<times> heap \<times> ref list" where
  "matchOrder now order st =
     (if o_type order = Market then matchMarketOrder now order st
      else matchLimitOrder now order st)"

definition opposingOrders :: "order \<Rightarrow> engine \<Rightarrow> ref list" where
  "opposingOrders order st =
     (if o_type order = Market then marketOpposing order st else limitOpposing order st)"

text \<open>\<open>addOrder\<close> returns \<open>{trades, remainingOrder}\<close> and the engine after the call.\<close>

definition addOrder ::
  "(nat \<Rightarrow> int) \<Rightarrow> order \<Rightarrow> engine \<Rightarrow> (trade list \<times> order option) \<times> engine" where
  "addOrder now order st =
     (case matchOrder now order st of
        (newTrades, remainingOrder, seq', heap', live') \<Rightarrow>
          ((newTrades, remainingOrder),
           \<lparr>orders = (case remainingOrder of
                        None \<Rightarrow> map heap' live'
                      | Some rem \<Rightarrow> if o_quantity rem > 0 then map heap' live' @ [rem]
                                    else map heap' live'),
            trades = trades st @ newTrades,
            sequenceId = seq'\<rparr>))"

definition removeOrder :: "string \<Rightarrow> engine \<Rightarrow> bool \<times> engine" where
  "removeOrder orderId st =
     (let initialLength = length (orders st);
          st' = st\<lparr>orders := filter (\<lambda>x. o_id x \<noteq> orderId) (orders st)\<rparr>
      in (length (orders st') < initialLength, st'))"

definition clear :: "engine \<Rightarrow> engine" where
  "clear st = st\<lparr>orders := [], trades := []\<rparr>"

definition getTrades :: "engine \<Rightarrow> trade list" where
  "getTrades st = rev (trades st)"

definition getOrders :: "engine \<Rightarrow> order list" where
  "getOrders st = orders st"

section \<open>Book snapshot\<close>

text \<open>
  \<open>priceMap\<close> is a \<open>Map\<close>, which iterates in insertion order and keeps the place of a
  key that is set again: an association list updated in place.
\<close>

definition priceMapAdd ::
  "(rat \<times> rat \<times> nat) list \<Rightarrow> order \<Rightarrow> (rat \<times> rat \<times> nat) list" where
  "priceMapAdd priceMap order =
     (let existing = (case map_of priceMap (o_price order) of
                        Some e \<Rightarrow> e | None \<Rightarrow> (0, 0))
      in AList.update (o_price order)
           (fst existing + o_quantity order, snd existing + 1) priceMap)"

fun runningTotals :: "rat \<Rightarrow> order_book_level list \<Rightarrow> order_book_level list" where
  "runningTotals runningTotal [] = []"
| "runningTotals runningTotal (level # levels) =
     level\<lparr>l_total := runningTotal + l_quantity level\<rparr>
       # runningTotals (runningTotal + l_quantity level) levels"

definition levelCmp :: "side \<Rightarrow> order_book_level \<Rightarrow> order_book_level \<Rightarrow> rat" where
  "levelCmp sd a b = (if sd = Buy then l_price b - l_price a else l_price a - l_price b)"

definition aggregateOrdersByPrice :: "side \<Rightarrow> engine \<Rightarrow> order_book_level list" where
  "aggregateOrdersByPrice sd st =
     (let sideOrders = filter (\<lambda>x. o_side x = sd) (orders st);
          priceMap = foldl priceMapAdd [] sideOrders;
          levels = map (\<lambda>(price, data).
                      \<lparr>l_price = price, l_quantity = fst data, l_total = 0,
                       l_count = snd data\<rparr>) priceMap
      in runningTotals 0 (sort_cmp (levelCmp sd) levels))"

text \<open>\<open>bids[0]?.price || 0\<close>: a missing level and a price of zero both give zero.\<close>

definition bestPrice :: "order_book_level list \<Rightarrow> rat" where
  "bestPrice levels =
     (case levels of [] \<Rightarrow> 0 | l # _ \<Rightarrow> if l_price l \<noteq> 0 then l_price l else 0)"

definition bestBid :: "engine \<Rightarrow> rat" where
  "bestBid st = bestPrice (aggregateOrdersByPrice Buy st)"

definition bestAsk :: "engine \<Rightarrow> rat" where
  "bestAsk st = bestPrice (aggregateOrdersByPrice Sell st)"

text \<open>
  \<open>getOrderBook\<close> assigns to no field and writes to no resting order; it is returned
  with the engine it leaves behind so that this can be stated.
\<close>

definition getOrderBook :: "engine \<Rightarrow> order_book \<times> engine" where
  "getOrderBook st =
     (\<lparr>bids = take 20 (aggregateOrdersByPrice Buy st),
       asks = take 20 (aggregateOrdersByPrice Sell st),
       midPrice = (if bestBid st \<noteq> 0 \<and> bestAsk st \<noteq> 0
                   then (bestBid st + bestAsk st) / 2 else 0),
       spread = (if bestAsk st \<noteq> 0 \<and> bestBid st \<noteq> 0
                 then bestAsk st - bestBid st else 0)\<rparr>,
      st)"

section \<open>Notions used to state the properties\<close>

text \<open>The resting side of a trade: the seller when the taker buys, the buyer otherwise.\<close>

definition makerId :: "trade \<Rightarrow> string option" where
  "makerId t = (if t_side t = Buy then t_seller t else t_buyer t)"

text \<open>
  The trades of one call are generated while walking \<open>opposingOrders\<close>, one per resting
  order walked; \<open>tradedAgainst ts opp a\<close> adds up the quantities of the trades generated
  against the resting order \<open>a\<close>.
\<close>

definition tradedAgainst :: "trade list \<Rightarrow> ref list \<Rightarrow> ref \<Rightarrow> rat" where
  "tradedAgainst ts opp a =
     sum_list (map (\<lambda>p. t_quantity (fst p)) (filter (\<lambda>p. snd p = a) (zip ts opp)))"

text \<open>A trade with its timestamp blanked.\<close>

definition untimed :: "trade \<Rightarrow> trade" where
  "untimed t = t\<lparr>t_timestamp := 0\<rparr>"

text \<open>An order with its quantity blanked: what stays the same while it is filled.\<close>

definition withoutQuantity :: "order \<Rightarrow> order" where
  "withoutQuantity x = x\<lparr>o_quantity := 0\<rparr>"



text \<open>
  A caller's sequence of calls on one engine. \<open>run\<close> returns every trade the calls
  emitted, in generation order, and the engine left behind.
\<close>

datatype call = AddOrder order | RemoveOrder string | Clear | GetOrderBook

fun run :: "(nat \<Rightarrow> int) \<Rightarrow> call list \<Rightarrow> engine \<Rightarrow> trade list \<times> engine" where
  "run now [] st = ([], st)"
| "run now (AddOrder order # cs) st =
     (case addOrder now order st of
        ((ts, _), st') \<Rightarrow> (case run now cs st' of (us, st'') \<Rightarrow> (ts @ us, st'')))"
| "run now (RemoveOrder orderId # cs) st = run now cs (snd (removeOrder orderId st))"
| "run now (Clear # cs) st = run now cs (clear st)"
| "run now (GetOrderBook # cs) st = run now cs (snd (getOrderBook st))"

subsection \<open>Concrete inputs, after src/__tests__/orderMatcher.test.ts\<close>

definition exOrder :: "string \<Rightarrow> rat \<Rightarrow> rat \<Rightarrow> side \<Rightarrow> order_type \<Rightarrow> order" where
  "exOrder i p q s ty =
     \<lparr>o_id = i, o_price = p, o_quantity = q, o_side = s, o_type = ty, o_timestamp = 0\<rparr>"

definition exBook :: engine where
  "exBook = \<lparr>orders = [exOrder ''sell1'' 100 5 Sell Limit, exOrder ''sell2'' 101 3 Sell Limit,
                       exOrder ''buy1'' 99 4 Buy Limit, exOrder ''buy2'' 98 6 Buy Limit],
             trades = [], sequenceId = 0\<rparr>"

text \<open>Two asks at one price behind a dearer ask that arrived first.\<close>

definition exTieBook :: engine where
  "exTieBook = \<lparr>orders = [exOrder ''s1'' 101 3 Sell Limit, exOrder ''s2'' 100 5 Sell Limit,
                          exOrder ''s3'' 100 4 Sell Limit, exOrder ''b1'' 99 1 Buy Limit],
                trades = [], sequenceId = 0\<rparr>"



text \<open>A clock that stands still at \<open>t\<close> during the call.\<close>

definition exClock :: "int \<Rightarrow> nat \<Rightarrow> int" where
  "exClock t n = t"

lemmas eval_defs = addOrder_def matchOrder_def matchMarketOrder_def matchLimitOrder_def
  opposingOrders_def marketOpposing_def limitOpposing_def sort_cmp_def priceCmp_def
  matchStep_def opposite_def tradeId_def decimal.simps digit_def exBook_def exTieBook_def
  exOrder_def exClock_def Let_def


section \<open>The sort and the loop\<close>

lemma insort_cmp_asc: "insort_cmp (\<lambda>a b. f a - f b) x ys = insort_key f x ys"
  by (induction ys) auto

lemma sort_cmp_asc: "sort_cmp (\<lambda>a b. f a - f b) xs = sort_key f xs"
  by (induction xs) (auto simp: sort_cmp_def insort_cmp_asc)

lemma insort_cmp_desc: "insort_cmp (\<lambda>a b. f b - f a) x ys = insort_key (\<lambda>x. - f x) x ys"
  by (induction ys) auto

lemma sort_cmp_desc: "sort_cmp (\<lambda>a b. f b - f a) xs = sort_key (\<lambda>x. - f x) xs"
  by (induction xs) (auto simp: sort_cmp_def insort_cmp_desc)

lemma priceCmp_Buy: "o_side order = Buy \<Longrightarrow> sort_cmp (priceCmp order heap) xs = sort_key (\<lambda>a. o_price (heap a)) xs"
  unfolding priceCmp_def by (simp add: sort_cmp_asc)

lemma priceCmp_Sell: "o_side order \<noteq> Buy \<Longrightarrow> sort_cmp (priceCmp order heap) xs = sort_key (\<lambda>a. - o_price (heap a)) xs"
  unfolding priceCmp_def by (simp add: sort_cmp_desc)

lemma matchLoop_stop: "rem \<le> 0 \<Longrightarrow> matchLoop now order opp rem seq heap live = ([], rem, seq, heap, live)"
  by (cases opp) auto

lemma matchLoop_ConsE:
  assumes "matchLoop now order (r # rest) rem seq heap live = (ts, res)" and "\<not> rem \<le> 0"
  obtains t ts1 rem1 seq1 heap1 live1 where
    "matchStep now order r rem seq heap live = (t, rem1, seq1, heap1, live1)"
    "matchLoop now order rest rem1 seq1 heap1 live1 = (ts1, res)"
    "ts = t # ts1"
  using assms by (auto split: prod.splits)

text \<open>An invariant of the store and of \<open>this.orders\<close> that each step keeps holds at the end.\<close>

lemma matchLoop_invariant:
  assumes "matchLoop now order opp rem seq heap live = (ts, rem', seq', heap', live')"
    and "I heap live"
    and "\<And>r rem seq heap live t rem1 seq1 heap1 live1.
           I heap live \<Longrightarrow> matchStep now order r rem seq heap live = (t, rem1, seq1, heap1, live1)
           \<Longrightarrow> I heap1 live1"
  shows "I heap' live'"
  using assms(1,2)
proof (induction opp arbitrary: rem seq heap live ts)
  case Nil
  then show ?case by simp
next
  case (Cons r rest)
  show ?case
  proof (cases "rem \<le> 0")
    case True
    with Cons.prems show ?thesis by simp
  next
    case False
    from Cons.prems(1) False obtain t ts1 rem1 seq1 heap1 live1 where
      st: "matchStep now order r rem seq heap live = (t, rem1, seq1, heap1, live1)" and
      lp: "matchLoop now order rest rem1 seq1 heap1 live1 = (ts1, rem', seq', heap', live')"
      by (rule matchLoop_ConsE)
    from assms(3)[OF Cons.prems(2) st] have "I heap1 live1" .
    with lp show ?thesis by (rule Cons.IH)
  qed
qed

lemma matchStep_frame:
  "matchStep now order r rem seq heap live = (t, rem1, seq1, heap1, live1) \<Longrightarrow>
   (heap1 a)\<lparr>o_quantity := q\<rparr> = (heap a)\<lparr>o_quantity := q\<rparr>"
  by (auto simp: matchStep_def Let_def)

lemma matchLoop_frame:
  assumes "matchLoop now order opp rem seq heap live = (ts, rem', seq', heap', live')"
  shows "(heap' a)\<lparr>o_quantity := q\<rparr> = (heap a)\<lparr>o_quantity := q\<rparr>"
  by (rule matchLoop_invariant[OF assms, where I = "\<lambda>h l. (h a)\<lparr>o_quantity := q\<rparr> = (heap a)\<lparr>o_quantity := q\<rparr>"])
     (simp_all add: matchStep_frame)



lemma matchStep_subseq:
  "matchStep now order r rem seq heap live = (t, rem1, seq1, heap1, live1) \<Longrightarrow> subseq live1 live"
  by (auto simp: matchStep_def Let_def split: if_splits)

lemma matchLoop_subseq:
  assumes "matchLoop now order opp rem seq heap live = (ts, rem', seq', heap', live')"
  shows "subseq live' live"
  by (rule matchLoop_invariant[OF assms, where I = "\<lambda>h l. subseq l live"])
     (auto dest: matchStep_subseq intro: subseq_order.trans)

subsection \<open>What the walk contains, and what each trade records\<close>

lemma set_insort_cmp: "set (insort_cmp cmp x ys) = insert x (set ys)"
  by (induction ys) auto

lemma set_sort_cmp: "set (sort_cmp cmp xs) = set xs"
  by (induction xs) (auto simp: sort_cmp_def set_insort_cmp)

lemma distinct_insort_cmp: "distinct (insort_cmp cmp x ys) = (x \<notin> set ys \<and> distinct ys)"
  by (induction ys) (auto simp: set_insort_cmp)

lemma distinct_sort_cmp: "distinct (sort_cmp cmp xs) = distinct xs"
  by (induction xs) (auto simp: sort_cmp_def distinct_insort_cmp set_sort_cmp[unfolded sort_cmp_def])

lemma distinct_opposingOrders: "distinct (opposingOrders order st)"
  by (simp add: opposingOrders_def marketOpposing_def limitOpposing_def distinct_sort_cmp)

lemma set_opposingOrders:
  "set (opposingOrders order st) =
     {a. a < length (orders st) \<and> o_side (orders st ! a) = opposite (o_side order) \<and>
         (o_type order = Market \<or>
          (if o_side order = Buy then o_price (orders st ! a) \<le> o_price order
           else o_price order \<le> o_price (orders st ! a)))}"
  by (cases "o_type order")
     (auto simp: opposingOrders_def marketOpposing_def limitOpposing_def set_sort_cmp)

lemma makerId_step:
  "makerId \<lparr>t_id = i, t_price = p, t_quantity = q, t_side = o_side order, t_timestamp = ts,
            t_buyer = Some (if o_side order = Buy then o_id order else x),
            t_seller = Some (if o_side order = Sell then o_id order else x)\<rparr> = Some x"
  by (cases "o_side order") (simp_all add: makerId_def)

lemma matchStep_trade:
  assumes "matchStep now order r rem seq heap live = (t, rem1, seq1, heap1, live1)"
  shows "t_id t = tradeId seq" "t_price t = o_price (heap r)"
    "t_quantity t = min rem (o_quantity (heap r))" "t_side t = o_side order"
    "t_timestamp t = now seq" "makerId t = Some (o_id (heap r))"
    "rem1 = rem - t_quantity t" "seq1 = Suc seq"
    "o_quantity (heap1 r) = o_quantity (heap r) - t_quantity t"
    "a \<noteq> r \<Longrightarrow> heap1 a = heap a"
  using assms by (auto simp: matchStep_def Let_def makerId_step)

lemma matchStep_fields:
  assumes "matchStep now order r rem seq heap live = (t, rem1, seq1, heap1, live1)"
  shows "o_id (heap1 a) = o_id (heap a)" "o_price (heap1 a) = o_price (heap a)"
    "o_side (heap1 a) = o_side (heap a)"
  using assms by (auto simp: matchStep_def Let_def)

lemma matchLoop_walk:
  assumes "matchLoop now order opp rem seq heap live = (ts, rem', seq', heap', live')"
  shows "length ts \<le> length opp \<and> seq' = seq + length ts
       \<and> rem' = rem - sum_list (map t_quantity ts)
       \<and> map t_id ts = map tradeId [seq..<seq + length ts]
       \<and> map t_timestamp ts = map now [seq..<seq + length ts]
       \<and> map t_price ts = map (\<lambda>a. o_price (heap a)) (take (length ts) opp)
       \<and> map makerId ts = map (\<lambda>a. Some (o_id (heap a))) (take (length ts) opp)
       \<and> (length ts < length opp \<longrightarrow> rem' \<le> 0)"
  using assms
proof (induction opp arbitrary: rem seq heap live ts)
  case Nil
  then show ?case by simp
next
  case (Cons r rest)
  show ?case
  proof (cases "rem \<le> 0")
    case True
    with Cons.prems show ?thesis by simp
  next
    case False
    from Cons.prems False obtain t ts1 rem1 seq1 heap1 live1 where
      st: "matchStep now order r rem seq heap live = (t, rem1, seq1, heap1, live1)" and
      lp: "matchLoop now order rest rem1 seq1 heap1 live1 = (ts1, rem', seq', heap', live')" and
      ts: "ts = t # ts1"
      by (rule matchLoop_ConsE)
    note ih = Cons.IH[OF lp]
    note f = matchStep_trade[OF st] matchStep_fields[OF st]
    have u: "[seq..<Suc (seq + length ts1)] = seq # [Suc seq..<Suc (seq + length ts1)]"
      by (rule upt_conv_Cons) simp
    from ih show ?thesis
      by (auto simp: ts f u simp del: upt_Suc)
  qed
qed

subsection \<open>Quantities\<close>

lemma tradedAgainst_Nil [simp]: "tradedAgainst [] opp a = 0" "tradedAgainst ts [] a = 0"
  by (simp_all add: tradedAgainst_def)

lemma tradedAgainst_Cons [simp]:
  "tradedAgainst (t # ts) (r # rest) a = (if r = a then t_quantity t else 0) + tradedAgainst ts rest a"
  by (simp add: tradedAgainst_def)







section \<open>addOrder\<close>

lemma matchOrder_loop:
  assumes "matchOrder now order st = (ts, remainder, seq', heap', live')"
  obtains rq where
    "matchLoop now order (opposingOrders order st) (o_quantity order) (sequenceId st)
       (nth (orders st)) [0..<length (orders st)] = (ts, rq, seq', heap', live')"
    "remainder = (if o_type order = Market then None
                  else if rq > 0 then Some (order\<lparr>o_quantity := rq\<rparr>) else None)"
  using assms
  by (auto simp: matchOrder_def matchMarketOrder_def matchLimitOrder_def opposingOrders_def
           split: if_splits prod.splits)

lemma matchOrder_nonpositive:
  "o_quantity order \<le> 0 \<Longrightarrow>
   matchOrder now order st = ([], None, sequenceId st, nth (orders st), [0..<length (orders st)])"
  by (simp add: matchOrder_def matchMarketOrder_def matchLimitOrder_def matchLoop_stop)

lemma addOrder_orders:
  assumes "matchOrder now order st = (ts, remainder, seq', heap', live')"
  shows "addOrder now order st =
     ((ts, remainder),
      \<lparr>orders = map heap' live' @ (case remainder of None \<Rightarrow> []
                   | Some rem \<Rightarrow> if o_quantity rem > 0 then [rem] else []),
       trades = trades st @ ts, sequenceId = seq'\<rparr>)"
  using assms by (simp add: addOrder_def split: option.splits)


lemma addOrder_trades: "fst (fst (addOrder now order st)) = fst (matchOrder now order st)"
  by (simp add: addOrder_def split: prod.splits)

lemma matchOrder_walk:
  assumes "matchOrder now order st = (ts, remainder, seq', heap', live')"
  shows "length ts \<le> length (opposingOrders order st)"
    "seq' = sequenceId st + length ts"
    "map t_id ts = map tradeId [sequenceId st..<sequenceId st + length ts]"
    "map t_timestamp ts = map now [sequenceId st..<sequenceId st + length ts]"
    "map t_price ts = map (\<lambda>a. o_price (orders st ! a)) (take (length ts) (opposingOrders order st))"
    "map makerId ts = map (\<lambda>a. Some (o_id (orders st ! a))) (take (length ts) (opposingOrders order st))"
proof -
  from assms obtain rq where
    lp: "matchLoop now order (opposingOrders order st) (o_quantity order) (sequenceId st)
       (nth (orders st)) [0..<length (orders st)] = (ts, rq, seq', heap', live')"
    by (rule matchOrder_loop)
  note w = matchLoop_walk[OF lp]
  from w show "length ts \<le> length (opposingOrders order st)" by simp
  from w show "seq' = sequenceId st + length ts" by simp
  from w show "map t_id ts = map tradeId [sequenceId st..<sequenceId st + length ts]" by simp
  from w show "map t_timestamp ts = map now [sequenceId st..<sequenceId st + length ts]" by simp
  from w show "map t_price ts = map (\<lambda>a. o_price (orders st ! a)) (take (length ts) (opposingOrders order st))" by simp
  from w show "map makerId ts = map (\<lambda>a. Some (o_id (orders st ! a))) (take (length ts) (opposingOrders order st))" by simp
qed

section \<open>Trade identifiers and the counter\<close>

lemma distinct_digits: "distinct ''0123456789''"
  by simp

lemma digit_inj: "a < 10 \<Longrightarrow> b < 10 \<Longrightarrow> digit a = digit b \<Longrightarrow> a = b"
  using nth_eq_iff_index_eq[OF distinct_digits, of a b] by (simp add: digit_def)

lemma decimal_nonempty: "decimal n \<noteq> []"
  by (subst decimal.simps) simp

lemma decimal_inj: "decimal m = decimal n \<Longrightarrow> m = n"
proof (induction m arbitrary: n rule: decimal.induct)
  case (1 m)
  show ?case
  proof (cases "m < 10")
    case True
    show ?thesis
    proof (cases "n < 10")
      case n: True
      from "1.prems" True n have "digit m = digit n"
        by (simp add: decimal.simps[of m] decimal.simps[of n])
      with True n show ?thesis by (rule digit_inj)
    next
      case False
      with "1.prems" True decimal_nonempty[of "n div 10"] show ?thesis
        by (simp add: decimal.simps[of m] decimal.simps[of n] Cons_eq_append_conv)
    qed
  next
    case False
    show ?thesis
    proof (cases "n < 10")
      case True
      with "1.prems" False decimal_nonempty[of "m div 10"] show ?thesis
        by (simp add: decimal.simps[of m] decimal.simps[of n] append_eq_Cons_conv)
    next
      case n: False
      from "1.prems" False n have
        "decimal (m div 10) = decimal (n div 10)" "digit (m mod 10) = digit (n mod 10)"
        by (simp_all add: decimal.simps[of m] decimal.simps[of n])
      then have "m div 10 = n div 10" "m mod 10 = n mod 10"
        using "1.IH"[OF False] digit_inj[of "m mod 10" "n mod 10"] by simp_all
      then show ?thesis by (metis div_mult_mod_eq)
    qed
  qed
qed

lemma inj_tradeId: "inj tradeId"
  by (rule injI) (simp add: tradeId_def decimal_inj)

lemma addOrder_sequence:
  "sequenceId (snd (addOrder now order st)) = sequenceId st + length (fst (fst (addOrder now order st)))
   \<and> map t_id (fst (fst (addOrder now order st))) =
       map tradeId [sequenceId st..<sequenceId st + length (fst (fst (addOrder now order st)))]"
proof -
  obtain ts remainder seq' heap' live' where
    m: "matchOrder now order st = (ts, remainder, seq', heap', live')"
    by (cases "matchOrder now order st") auto
  from matchOrder_walk(2,3)[OF m] show ?thesis
    by (simp add: addOrder_orders[OF m])
qed

lemma run_sequence:
  "sequenceId (snd (run now calls st)) = sequenceId st + length (fst (run now calls st))
   \<and> map t_id (fst (run now calls st)) =
       map tradeId [sequenceId st..<sequenceId st + length (fst (run now calls st))]"
proof (induction calls arbitrary: st)
  case Nil
  show ?case by simp
next
  case (Cons c cs)
  show ?case
  proof (cases c)
    case (AddOrder order)
    obtain ts remainder st' where a: "addOrder now order st = ((ts, remainder), st')"
      by (cases "addOrder now order st") auto
    obtain us st'' where r: "run now cs st' = (us, st'')"
      by (cases "run now cs st'") auto
    from addOrder_sequence[of now order st] a have
      s1: "sequenceId st' = sequenceId st + length ts" and
      i1: "map t_id ts = map tradeId [sequenceId st..<sequenceId st + length ts]" by simp_all
    from Cons.IH[of st'] r have
      s2: "sequenceId st'' = sequenceId st' + length us" and
      i2: "map t_id us = map tradeId [sequenceId st'..<sequenceId st' + length us]" by simp_all
    have "[sequenceId st..<sequenceId st + (length ts + length us)]
        = [sequenceId st..<sequenceId st + length ts]
          @ [sequenceId st + length ts..<sequenceId st + length ts + length us]"
      using upt_add_eq_append[of "sequenceId st" "sequenceId st + length ts" "length us"]
      by (simp add: add.assoc)
    with s1 s2 i1 i2 show ?thesis
      by (simp add: AddOrder a r)
  next
    case (RemoveOrder orderId)
    with Cons.IH[of "snd (removeOrder orderId st)"] show ?thesis
      by (simp add: removeOrder_def Let_def)
  next
    case Clear
    with Cons.IH[of "clear st"] show ?thesis by (simp add: clear_def)
  next
    case GetOrderBook
    with Cons.IH[of st] show ?thesis by (simp add: getOrderBook_def)
  qed
qed

section \<open>The clock\<close>

lemma matchStep_clock:
  "matchStep now' order r rem seq heap live =
     (case matchStep now order r rem seq heap live of
        (t, res) \<Rightarrow> (t\<lparr>t_timestamp := now' seq\<rparr>, res))"
  by (simp add: matchStep_def Let_def)

lemma matchLoop_clock:
  "snd (matchLoop now order opp rem seq heap live) = snd (matchLoop now' order opp rem seq heap live)
   \<and> map untimed (fst (matchLoop now order opp rem seq heap live)) =
      map untimed (fst (matchLoop now' order opp rem seq heap live))"
proof (induction opp arbitrary: rem seq heap live)
  case Nil
  show ?case by simp
next
  case (Cons r rest)
  show ?case
  proof (cases "rem \<le> 0")
    case True
    then show ?thesis by simp
  next
    case False
    obtain t rem1 seq1 heap1 live1 where
      st: "matchStep now order r rem seq heap live = (t, rem1, seq1, heap1, live1)"
      by (cases "matchStep now order r rem seq heap live") auto
    then have st': "matchStep now' order r rem seq heap live
        = (t\<lparr>t_timestamp := now' seq\<rparr>, rem1, seq1, heap1, live1)"
      by (simp add: matchStep_clock[of now' _ _ _ _ _ _ now])
    from Cons.IH[of rem1 seq1 heap1 live1] False show ?thesis
      by (auto simp: st st' untimed_def split: prod.splits)
  qed
qed

lemma matchOrder_clock:
  "snd (matchOrder now order st) = snd (matchOrder now' order st)
   \<and> map untimed (fst (matchOrder now order st)) = map untimed (fst (matchOrder now' order st))"
  using matchLoop_clock[of now order "marketOpposing order st" "o_quantity order" "sequenceId st"
          "nth (orders st)" "[0..<length (orders st)]" now']
        matchLoop_clock[of now order "limitOpposing order st" "o_quantity order" "sequenceId st"
          "nth (orders st)" "[0..<length (orders st)]" now']
  by (auto simp: matchOrder_def matchMarketOrder_def matchLimitOrder_def split: prod.splits)

section \<open>Reachable states\<close>



section \<open>Price and time priority of the walk\<close>

lemma sorted_wrt_filter_nth:
  "sorted_wrt R (filter Q xs) \<Longrightarrow> i < j \<Longrightarrow> j < length xs \<Longrightarrow> Q (xs ! i) \<Longrightarrow> Q (xs ! j)
   \<Longrightarrow> R (xs ! i) (xs ! j)"
proof (induction xs arbitrary: i j)
  case Nil
  then show ?case by simp
next
  case (Cons x xs)
  from Cons.prems(2) obtain j' where j: "j = Suc j'" by (cases j) auto
  show ?case
  proof (cases i)
    case 0
    with Cons.prems j show ?thesis by auto
  next
    case (Suc i')
    with Cons.prems j have "sorted_wrt R (filter Q xs)" "i' < j'" "j' < length xs"
      "Q (xs ! i')" "Q (xs ! j')" by (auto split: if_splits)
    then have "R (xs ! i') (xs ! j')" by (rule Cons.IH)
    with Suc j show ?thesis by simp
  qed
qed

text \<open>A stable sort by a key keeps ascending references ascending within one key.\<close>

lemma sort_key_priority:
  fixes key :: "nat \<Rightarrow> rat"
  assumes "sorted_wrt (<) xs" and "i < j" and "j < length (sort_key key xs)"
  shows "key (sort_key key xs ! i) \<le> key (sort_key key xs ! j)
       \<and> (key (sort_key key xs ! i) = key (sort_key key xs ! j)
            \<longrightarrow> sort_key key xs ! i < sort_key key xs ! j)"
proof -
  let ?ys = "sort_key key xs"
  have "sorted (map key ?ys)" by (rule sorted_sort_key)
  with assms(2,3) have le: "key (?ys ! i) \<le> key (?ys ! j)"
    using sorted_nth_mono[of "map key ?ys" i j] by simp
  have "key (?ys ! i) = key (?ys ! j) \<Longrightarrow> ?ys ! i < ?ys ! j"
  proof -
    assume e: "key (?ys ! i) = key (?ys ! j)"
    let ?Q = "\<lambda>a. key a = key (?ys ! j)"
    have "filter ?Q ?ys = filter ?Q xs" by (rule sort_key_stable)
    moreover from assms(1) have "sorted_wrt (<) (filter ?Q xs)" by (rule sorted_wrt_filter)
    ultimately have "sorted_wrt (<) (filter ?Q ?ys)" by simp
    from this assms(2,3) e show ?thesis by (rule sorted_wrt_filter_nth) simp
  qed
  with le show ?thesis by blast
qed

lemma opposingOrders_Buy:
  "o_side order = Buy \<Longrightarrow> \<exists>xs. sorted_wrt (<) xs \<and>
     opposingOrders order st = sort_key (\<lambda>a. o_price (orders st ! a)) xs"
  by (auto simp: opposingOrders_def marketOpposing_def limitOpposing_def priceCmp_Buy
           intro!: exI sorted_wrt_filter)

lemma opposingOrders_Sell:
  "o_side order \<noteq> Buy \<Longrightarrow> \<exists>xs. sorted_wrt (<) xs \<and>
     opposingOrders order st = sort_key (\<lambda>a. - o_price (orders st ! a)) xs"
  by (auto simp: opposingOrders_def marketOpposing_def limitOpposing_def priceCmp_Sell
           intro!: exI sorted_wrt_filter)

lemma opposingOrders_priority:
  assumes "i < j" and "j < length (opposingOrders order st)"
  shows "(if o_side order = Buy
          then o_price (orders st ! (opposingOrders order st ! i))
                 \<le> o_price (orders st ! (opposingOrders order st ! j))
          else o_price (orders st ! (opposingOrders order st ! j))
                 \<le> o_price (orders st ! (opposingOrders order st ! i)))
       \<and> (o_price (orders st ! (opposingOrders order st ! i))
            = o_price (orders st ! (opposingOrders order st ! j))
          \<longrightarrow> opposingOrders order st ! i < opposingOrders order st ! j)"
proof (cases "o_side order = Buy")
  case True
  then obtain xs where xs: "sorted_wrt (<) xs"
    "opposingOrders order st = sort_key (\<lambda>a. o_price (orders st ! a)) xs"
    using opposingOrders_Buy by blast
  from sort_key_priority[OF xs(1) assms(1), of "\<lambda>a. o_price (orders st ! a)"] assms(2) True
  show ?thesis by (simp add: xs(2))
next
  case False
  then obtain xs where xs: "sorted_wrt (<) xs"
    "opposingOrders order st = sort_key (\<lambda>a. - o_price (orders st ! a)) xs"
    using opposingOrders_Sell by blast
  from sort_key_priority[OF xs(1) assms(1), of "\<lambda>a. - o_price (orders st ! a)"] assms(2) False
  show ?thesis by (simp add: xs(2))
qed

section \<open>Aggregation into price levels\<close>























section \<open>The claims\<close>

text \<open>
  C1. The walk \<open>opposingOrders\<close> holds exactly the eligible resting orders (opposite
  side; for a limit order also a price at or better than the limit), each once. It is in
  price priority: of two orders in it, the earlier has the lower or equal price for an
  incoming buy, the higher or equal price for an incoming sell; and at equal prices the
  earlier one stood earlier in the resting set, that is, was inserted first. The trades
  are generated against a leading part of the walk, in its order, and the walk stops
  short only when the incoming quantity is used up.
\<close>

theorem price_time_priority:
  "set (opposingOrders order st) =
     {a. a < length (orders st) \<and> o_side (orders st ! a) = opposite (o_side order) \<and>
         (o_type order = Market \<or>
          (if o_side order = Buy then o_price (orders st ! a) \<le> o_price order
           else o_price order \<le> o_price (orders st ! a)))}
   \<and> distinct (opposingOrders order st)
   \<and> (\<forall>i j. i < j \<and> j < length (opposingOrders order st) \<longrightarrow>
        (if o_side order = Buy
         then o_price (orders st ! (opposingOrders order st ! i))
                \<le> o_price (orders st ! (opposingOrders order st ! j))
         else o_price (orders st ! (opposingOrders order st ! j))
                \<le> o_price (orders st ! (opposingOrders order st ! i)))
        \<and> (o_price (orders st ! (opposingOrders order st ! i))
             = o_price (orders st ! (opposingOrders order st ! j))
           \<longrightarrow> opposingOrders order st ! i < opposingOrders order st ! j))
   \<and> length (fst (fst (addOrder now order st))) \<le> length (opposingOrders order st)
   \<and> map makerId (fst (fst (addOrder now order st))) =
       map (\<lambda>a. Some (o_id (orders st ! a)))
         (take (length (fst (fst (addOrder now order st)))) (opposingOrders order st))
   \<and> (length (fst (fst (addOrder now order st))) < length (opposingOrders order st) \<longrightarrow>
        o_quantity order \<le> sum_list (map t_quantity (fst (fst (addOrder now order st)))))"
proof -
  obtain ts remainder seq' heap' live' where
    m: "matchOrder now order st = (ts, remainder, seq', heap', live')"
    by (cases "matchOrder now order st") auto
  then obtain rq where
    lp: "matchLoop now order (opposingOrders order st) (o_quantity order) (sequenceId st)
       (nth (orders st)) [0..<length (orders st)] = (ts, rq, seq', heap', live')"
    by (rule matchOrder_loop)
  from matchLoop_walk[OF lp] have
    stop: "length ts < length (opposingOrders order st) \<longrightarrow>
           o_quantity order \<le> sum_list (map t_quantity ts)" by auto
  have t: "fst (fst (addOrder now order st)) = ts" by (simp add: addOrder_trades m)
  from set_opposingOrders[of order st] distinct_opposingOrders[of order st]
    matchOrder_walk(1,6)[OF m] stop opposingOrders_priority[of _ _ order st]
  show ?thesis unfolding t by blast
qed

theorem price_time_priority_witness:
  "opposingOrders (exOrder ''market1'' 0 10 Buy Market) exTieBook = [1, 2, 0]
   \<and> (0::nat) < 1 \<and> 1 < length (opposingOrders (exOrder ''market1'' 0 10 Buy Market) exTieBook)
   \<and> o_price (orders exTieBook ! 1) = o_price (orders exTieBook ! 2)
   \<and> o_price (orders exTieBook ! 2) \<le> o_price (orders exTieBook ! 0)
   \<and> map makerId (fst (fst (addOrder (exClock 7) (exOrder ''market1'' 0 10 Buy Market) exTieBook)))
       = [Some ''s2'', Some ''s3'', Some ''s1'']
   \<and> opposingOrders (exOrder ''sell9'' 98 5 Sell Limit) exBook = [2, 3]
   \<and> map makerId (fst (fst (addOrder (exClock 7) (exOrder ''sell9'' 98 5 Sell Limit) exBook)))
       = [Some ''buy1'', Some ''buy2'']
   \<and> length (fst (fst (addOrder (exClock 7) (exOrder ''market1'' 0 4 Buy Market) exTieBook)))
       < length (opposingOrders (exOrder ''market1'' 0 4 Buy Market) exTieBook)
   \<and> o_quantity (exOrder ''market1'' 0 4 Buy Market)
       \<le> sum_list (map t_quantity
            (fst (fst (addOrder (exClock 7) (exOrder ''market1'' 0 4 Buy Market) exTieBook))))"
  using price_time_priority [of "exOrder ''market1'' 0 10 Buy Market" exTieBook "exClock 7"]
        price_time_priority [of "exOrder ''sell9'' 98 5 Sell Limit" exBook "exClock 7"]
        price_time_priority [of "exOrder ''market1'' 0 4 Buy Market" exTieBook "exClock 7"]
  by (simp add: eval_defs makerId_def)

text \<open>
  C2. Every trade \<open>addOrder\<close> emits carries the price of the resting order it was
  matched against: the trades, in generation order, are matched against the leading
  resting orders of the walk \<open>opposingOrders\<close>, and the k-th trade has the price (and
  names the identifier) of the k-th of them. The incoming order's own price is not used.
\<close>

theorem trade_price_is_maker_price:
  "length (fst (fst (addOrder now order st))) \<le> length (opposingOrders order st)
   \<and> map t_price (fst (fst (addOrder now order st))) =
       map (\<lambda>a. o_price (orders st ! a))
         (take (length (fst (fst (addOrder now order st)))) (opposingOrders order st))
   \<and> map makerId (fst (fst (addOrder now order st))) =
       map (\<lambda>a. Some (o_id (orders st ! a)))
         (take (length (fst (fst (addOrder now order st)))) (opposingOrders order st))"
proof -
  obtain ts remainder seq' heap' live' where
    m: "matchOrder now order st = (ts, remainder, seq', heap', live')"
    by (cases "matchOrder now order st") auto
  from matchOrder_walk(1,5,6)[OF m] show ?thesis
    by (simp add: addOrder_trades m)
qed

theorem trade_price_is_maker_price_witness:
  "o_price (exOrder ''buy9'' 102 7 Buy Limit) = 102
   \<and> opposingOrders (exOrder ''buy9'' 102 7 Buy Limit) exBook = [0, 1]
   \<and> map t_price (fst (fst (addOrder (exClock 7) (exOrder ''buy9'' 102 7 Buy Limit) exBook)))
       = [100, 101]
   \<and> map makerId (fst (fst (addOrder (exClock 7) (exOrder ''buy9'' 102 7 Buy Limit) exBook)))
       = [Some ''sell1'', Some ''sell2'']"
  using trade_price_is_maker_price [of "exClock 7" "exOrder ''buy9'' 102 7 Buy Limit" exBook]
  by (simp add: eval_defs makerId_def)





text \<open>
  C5. A market order never rests: whatever part of it is filled, \<open>addOrder\<close> returns no
  remainder, and the resting set afterwards is a subsequence of the resting set before,
  up to the quantities of the orders that were matched. Nothing is inserted.
\<close>

theorem market_order_never_rests:
  assumes "o_type order = Market"
  shows "snd (fst (addOrder now order st)) = None
       \<and> subseq (map withoutQuantity (orders (snd (addOrder now order st))))
                (map withoutQuantity (orders st))"
proof -
  obtain ts remainder seq' heap' live' where
    m: "matchOrder now order st = (ts, remainder, seq', heap', live')"
    by (cases "matchOrder now order st") auto
  then obtain rq where
    lp: "matchLoop now order (opposingOrders order st) (o_quantity order) (sequenceId st)
       (nth (orders st)) [0..<length (orders st)] = (ts, rq, seq', heap', live')" and
    r: "remainder = (if o_type order = Market then None
                  else if rq > 0 then Some (order\<lparr>o_quantity := rq\<rparr>) else None)"
    by (rule matchOrder_loop)
  from r assms have none: "remainder = None" by simp
  have "map withoutQuantity (map heap' live') = map (\<lambda>a. withoutQuantity (orders st ! a)) live'"
    using matchLoop_frame[OF lp, where q = 0] by (simp add: withoutQuantity_def)
  moreover have "subseq (map (\<lambda>a. withoutQuantity (orders st ! a)) live')
      (map (\<lambda>a. withoutQuantity (orders st ! a)) [0..<length (orders st)])"
    using matchLoop_subseq[OF lp] by (rule subseq_map)
  moreover have "map (\<lambda>a. withoutQuantity (orders st ! a)) [0..<length (orders st)]
      = map withoutQuantity (orders st)"
    by (rule nth_equalityI) auto
  ultimately have "subseq (map withoutQuantity (map heap' live')) (map withoutQuantity (orders st))"
    by (simp only:)
  then show ?thesis
    by (simp add: addOrder_orders[OF m] none)
qed

theorem market_order_never_rests_witness:
  "o_type (exOrder ''market9'' 0 20 Buy Market) = Market
   \<and> snd (fst (addOrder (exClock 7) (exOrder ''market9'' 0 20 Buy Market) exBook)) = None
   \<and> sum_list (map t_quantity
        (fst (fst (addOrder (exClock 7) (exOrder ''market9'' 0 20 Buy Market) exBook)))) = 8
   \<and> orders (snd (addOrder (exClock 7) (exOrder ''market9'' 0 20 Buy Market) exBook))
       = [exOrder ''buy1'' 99 4 Buy Limit, exOrder ''buy2'' 98 6 Buy Limit]
   \<and> subseq
        (map withoutQuantity
          (orders (snd (addOrder (exClock 7) (exOrder ''market9'' 0 20 Buy Market) exBook))))
        (map withoutQuantity (orders exBook))"
  using market_order_never_rests [of "exOrder ''market9'' 0 20 Buy Market" "exClock 7" exBook]
  by (simp add: eval_defs)






text \<open>
  C8, as amended. For a fixed resting set, incoming order and counter, two invocations of
  \<open>addOrder\<close> under different clocks emit the same trades in the same order in every
  field but \<open>timestamp\<close>, return the same remainder and leave the same resting set and
  counter; the \<open>timestamp\<close> of each trade is the clock reading taken when it is built.
\<close>

theorem trades_determined_up_to_timestamp:
  "map untimed (fst (fst (addOrder now order st))) = map untimed (fst (fst (addOrder now' order st)))
   \<and> snd (fst (addOrder now order st)) = snd (fst (addOrder now' order st))
   \<and> orders (snd (addOrder now order st)) = orders (snd (addOrder now' order st))
   \<and> sequenceId (snd (addOrder now order st)) = sequenceId (snd (addOrder now' order st))
   \<and> map t_timestamp (fst (fst (addOrder now order st))) =
       map now [sequenceId st..<sequenceId st + length (fst (fst (addOrder now order st)))]"
proof -
  obtain ts remainder seq' heap' live' where
    m: "matchOrder now order st = (ts, remainder, seq', heap', live')"
    by (cases "matchOrder now order st") auto
  obtain ts2 res2 where
    m2: "matchOrder now' order st = (ts2, res2)"
    by (cases "matchOrder now' order st") auto
  from matchOrder_clock[of now order st now'] m m2 have
    e: "res2 = (remainder, seq', heap', live')" "map untimed ts = map untimed ts2" by simp_all
  from matchOrder_walk(4)[OF m] e show ?thesis
    by (simp add: addOrder_orders[OF m] addOrder_orders[OF m2[unfolded e(1)]])
qed

theorem trades_determined_up_to_timestamp_witness:
  "map untimed (fst (fst (addOrder (exClock 1) (exOrder ''market1'' 0 7 Buy Market) exBook)))
     = map untimed (fst (fst (addOrder (exClock 2) (exOrder ''market1'' 0 7 Buy Market) exBook)))
   \<and> map t_timestamp (fst (fst (addOrder (exClock 1) (exOrder ''market1'' 0 7 Buy Market) exBook)))
     = [1, 1]
   \<and> map t_timestamp (fst (fst (addOrder (exClock 2) (exOrder ''market1'' 0 7 Buy Market) exBook)))
     = [2, 2]"
  using trades_determined_up_to_timestamp
          [of "exClock 1" "exOrder ''market1'' 0 7 Buy Market" exBook "exClock 2"]
  by (simp add: eval_defs)

text \<open>
  C8, as stated, fails: the same resting set, the same incoming order and the same
  counter give two different trade sequences when the clock reads 1 and when it reads 2.
\<close>

theorem trades_depend_on_clock:
  "fst (fst (addOrder (exClock 1) (exOrder ''market1'' 0 7 Buy Market) exBook))
     \<noteq> fst (fst (addOrder (exClock 2) (exOrder ''market1'' 0 7 Buy Market) exBook))"
  by (simp add: eval_defs)

text \<open>
  C9. An order whose quantity is zero or negative, market or limit, leaves the engine as
  it was: \<open>addOrder\<close> returns no trade and no remainder, and the resting set, the trade
  log and the counter are unchanged.
\<close>

theorem nonpositive_quantity_is_noop:
  "o_quantity order \<le> 0 \<Longrightarrow> addOrder now order st = (([], None), st)"
  by (simp add: addOrder_def matchOrder_nonpositive map_nth)

theorem nonpositive_quantity_is_noop_witness:
  "o_quantity (exOrder ''zero'' 100 0 Buy Limit) \<le> 0
   \<and> addOrder (exClock 7) (exOrder ''zero'' 100 0 Buy Limit) exBook = (([], None), exBook)
   \<and> o_quantity (exOrder ''neg'' 0 (- 2) Sell Market) \<le> 0
   \<and> addOrder (exClock 7) (exOrder ''neg'' 0 (- 2) Sell Market) exBook = (([], None), exBook)"
  using nonpositive_quantity_is_noop [of "exOrder ''zero'' 100 0 Buy Limit" "exClock 7" exBook]
        nonpositive_quantity_is_noop [of "exOrder ''neg'' 0 (- 2) Sell Market" "exClock 7" exBook]
  by (simp add: exOrder_def)

text \<open>
  C10. The counter grows by one for each trade generated and by nothing else:
  \<open>addOrder\<close> adds the number of its trades, whose identifiers are the consecutive
  sequence numbers from the old counter on, in generation order; \<open>removeOrder\<close> and
  \<open>clear\<close> leave it as it is, \<open>clear\<close> emptying the resting set and the trade log.
  Over any sequence of calls the trades emitted carry consecutive sequence numbers, and
  since the identifier text determines the number, no two of them share an identifier.
\<close>

theorem trade_sequence_numbers:
  "sequenceId (snd (addOrder now order st)) =
     sequenceId st + length (fst (fst (addOrder now order st)))
   \<and> map t_id (fst (fst (addOrder now order st))) =
       map tradeId [sequenceId st..<sequenceId st + length (fst (fst (addOrder now order st)))]
   \<and> sequenceId (snd (removeOrder orderId st)) = sequenceId st
   \<and> clear st = \<lparr>orders = [], trades = [], sequenceId = sequenceId st\<rparr>
   \<and> sequenceId (snd (run now calls st)) = sequenceId st + length (fst (run now calls st))
   \<and> map t_id (fst (run now calls st)) =
       map tradeId [sequenceId st..<sequenceId st + length (fst (run now calls st))]
   \<and> distinct (map t_id (fst (run now calls st)))
   \<and> inj tradeId"
proof -
  have "distinct (map t_id (fst (run now calls st)))"
    using run_sequence[of now calls st] by (simp add: distinct_map inj_tradeId[THEN inj_on_subset])
  then show ?thesis
    using addOrder_sequence[of now order st] run_sequence[of now calls st] inj_tradeId
    by (simp add: removeOrder_def Let_def clear_def)
qed

theorem trade_sequence_numbers_witness:
  "map t_id (fst (run (exClock 7)
      [AddOrder (exOrder ''market1'' 0 7 Buy Market), Clear,
       AddOrder (exOrder ''sell3'' 100 5 Sell Limit), GetOrderBook,
       AddOrder (exOrder ''buy3'' 100 5 Buy Limit)] exBook))
     = [''trade_0'', ''trade_1'', ''trade_2'']
   \<and> sequenceId (snd (run (exClock 7)
      [AddOrder (exOrder ''market1'' 0 7 Buy Market), Clear,
       AddOrder (exOrder ''sell3'' 100 5 Sell Limit), GetOrderBook,
       AddOrder (exOrder ''buy3'' 100 5 Buy Limit)] exBook)) = 3
   \<and> sequenceId (clear (snd (addOrder (exClock 7) (exOrder ''market1'' 0 7 Buy Market) exBook)))
     = 2"
  using trade_sequence_numbers
          [of "exClock 7" "exOrder ''market1'' 0 7 Buy Market" exBook "''sell1''"
              "[AddOrder (exOrder ''market1'' 0 7 Buy Market), Clear,
                AddOrder (exOrder ''sell3'' 100 5 Sell Limit), GetOrderBook,
                AddOrder (exOrder ''buy3'' 100 5 Buy Limit)]"]
  by (simp add: eval_defs clear_def getOrderBook_def)

end
